theory Spec2Isabelle
  imports Main
begin

section \<open>JavaScript values\<close>

text \<open>
  The constructor of \<^verbatim>\<open>Logger\<close> (src/index.js) receives an arbitrary JavaScript value and
  inspects it with \<^verbatim>\<open>!x\<close>, \<^verbatim>\<open>typeof\<close>, \<^verbatim>\<open>Array.isArray\<close>, \<^verbatim>\<open>Object.keys\<close>, \<^verbatim>\<open>isNaN\<close>
  and property reads, so the configuration is modelled as an untyped value.

  Scope of the value model: numbers are \<open>NaN\<close> and the integer-valued doubles (on these the
  comparison and the clamped subtraction of the memory sink are exact); strings are lists of
  code units below 256; arrays are dense; an object is the list of its own enumerable
  properties in enumeration order, with distinct keys and the standard prototype (nothing
  enumerable is inherited); a function value is an opaque identifier. Symbols, BigInts,
  fractional and infinite numbers lie outside the model.
\<close>

type_synonym date = nat

datatype jsnum = NaN | Fin int

datatype jsval =
    JUndefined
  | JNull
  | JBool bool
  | JNum jsnum
  | JStr string
  | JFun nat
  | JArr "jsval list"
  | JObj "(string \<times> jsval) list"

text \<open>\<^verbatim>\<open>!!v\<close>: the falsy values are undefined, null, false, 0, NaN and the empty string.\<close>

fun truthy :: "jsval \<Rightarrow> bool" where
  "truthy JUndefined = False"
| "truthy JNull = False"
| "truthy (JBool b) = b"
| "truthy (JNum NaN) = False"
| "truthy (JNum (Fin n)) = (n \<noteq> 0)"
| "truthy (JStr s) = (s \<noteq> [])"
| "truthy (JFun f) = True"
| "truthy (JArr xs) = True"
| "truthy (JObj kvs) = True"

fun typeof :: "jsval \<Rightarrow> string" where
  "typeof JUndefined = ''undefined''"
| "typeof JNull = ''object''"
| "typeof (JBool b) = ''boolean''"
| "typeof (JNum n) = ''number''"
| "typeof (JStr s) = ''string''"
| "typeof (JFun f) = ''function''"
| "typeof (JArr xs) = ''object''"
| "typeof (JObj kvs) = ''object''"

fun lookup :: "(string \<times> jsval) list \<Rightarrow> string \<Rightarrow> jsval" where
  "lookup [] k = JUndefined"
| "lookup ((k', v) # kvs) k = (if k' = k then v else lookup kvs k)"

text \<open>
  A property read \<^verbatim>\<open>v.name\<close>, for the names the constructor reads (\<^verbatim>\<open>types\<close>, \<^verbatim>\<open>log\<close>,
  \<^verbatim>\<open>file\<close>, \<^verbatim>\<open>memory\<close>, \<^verbatim>\<open>emit\<close>, \<^verbatim>\<open>dir\<close>, \<^verbatim>\<open>timestamp\<close>, \<^verbatim>\<open>history\<close>): none of them is a
  built-in property of a primitive, an array or a function, so the read yields undefined
  there. The source never reads a property of null or undefined except when it destructures
  its parameter, which \<open>Logger\<close> below treats itself.
\<close>

fun get :: "jsval \<Rightarrow> string \<Rightarrow> jsval" where
  "get (JObj kvs) k = lookup kvs k"
| "get v k = JUndefined"

text \<open>Decimal numerals, for array index keys and for the date fields of a file name.\<close>

function decimal :: "nat \<Rightarrow> string" where
  "decimal n = (if n < 10 then [''0123456789'' ! n]
                else decimal (n div 10) @ [''0123456789'' ! (n mod 10)])"
  by pat_completeness auto
termination
  by (relation "measure id") auto

declare decimal.simps [simp del]

definition int_to_string :: "int \<Rightarrow> string" where
  "int_to_string i = (if i < 0 then CHR ''-'' # decimal (nat (- i)) else decimal (nat i))"

text \<open>
  \<^verbatim>\<open>Object.keys(v)\<close> for a truthy \<open>v\<close>, which is also the order in which \<^verbatim>\<open>for (key in v)\<close>
  visits the keys: the own keys of an object, the indices of an array or of a string,
  nothing for the other primitives and for a function.
\<close>

fun keys_of :: "jsval \<Rightarrow> string list" where
  "keys_of (JObj kvs) = map fst kvs"
| "keys_of (JArr xs) = map decimal [0..<length xs]"
| "keys_of (JStr s) = map decimal [0..<length s]"
| "keys_of v = []"

section \<open>The runtime\<close>

text \<open>
  What the source takes from Node.js and from the host is a parameter of the model:
  \<^verbatim>\<open>util.inspect\<close>, the number/string conversions of the language, the clock behind
  \<^verbatim>\<open>new Date()\<close> (\<open>now rt n\<close> is the value of the \<open>n\<close>-th read), the UTC fields of a date,
  \<^verbatim>\<open>path.resolve\<close>, \<^verbatim>\<open>os.EOL\<close>, and the outcome of the calls that leave the program: the
  configured timestamp function (\<open>None\<close> when it throws, else the text its result contributes
  to the line), \<^verbatim>\<open>fs.appendFileSync\<close>, the original output function and the listeners
  (each may throw). Listeners and timestamp functions are taken not to call back into the
  console or the logger.
\<close>

record runtime =
  inspect :: "jsval \<Rightarrow> string"
  number_to_string :: "jsnum \<Rightarrow> string"
  string_to_number :: "string \<Rightarrow> jsnum"
  object_to_number :: "jsval \<Rightarrow> jsnum"
  now :: "nat \<Rightarrow> date"
  utc_full_year :: "date \<Rightarrow> int"
  utc_month :: "date \<Rightarrow> int"
  utc_date :: "date \<Rightarrow> int"
  path_resolve :: "string \<Rightarrow> string \<Rightarrow> string"
  EOL :: string
  timestamp_call :: "nat \<Rightarrow> date \<Rightarrow> string option"
  append_fails :: "string \<Rightarrow> string \<Rightarrow> bool"
  original_throws :: "string \<Rightarrow> jsval list \<Rightarrow> bool"
  listener_throws :: "nat \<Rightarrow> string \<Rightarrow> bool"

text \<open>\<^verbatim>\<open>Number(v)\<close>, the coercion behind \<^verbatim>\<open>isNaN\<close>, \<^verbatim>\<open>>=\<close> and \<^verbatim>\<open>-\<close>.\<close>

fun to_number :: "runtime \<Rightarrow> jsval \<Rightarrow> jsnum" where
  "to_number rt JUndefined = NaN"
| "to_number rt JNull = Fin 0"
| "to_number rt (JBool b) = Fin (if b then 1 else 0)"
| "to_number rt (JNum n) = n"
| "to_number rt (JStr s) = string_to_number rt s"
| "to_number rt v = object_to_number rt v"

definition isNaN :: "runtime \<Rightarrow> jsval \<Rightarrow> bool" where
  "isNaN rt v = (to_number rt v = NaN)"

section \<open>Errors\<close>

text \<open>
  One constructor per \<^verbatim>\<open>throw\<close> of the source (the offending value in place of the message
  text), \<open>TypeError\<close> for the errors the language raises itself, and one constructor per
  call that can throw inside the wrapper.
\<close>

datatype error =
    TypeError
  | MissingTypes
  | MissingLog
  | TypesNotArray
  | TypesEmpty
  | LogEmpty
  | InvalidDir
  | InvalidMemoryHistory
  | InvalidFileTimestamp
  | InvalidType jsval
  | InvalidLog string
  | AttachedMultipleTimes string
  | OriginalThrew
  | TimestampThrew
  | AppendFailed
  | UnhandledError
  | ListenerThrew

section \<open>Validation (src/index.js, lines 37 to 58)\<close>

text \<open>\<^verbatim>\<open>for (let item of types) if (![...].includes(item)) throw ...\<close>\<close>

fun check_types :: "jsval list \<Rightarrow> error option" where
  "check_types [] = None"
| "check_types (item # items) =
     (if item \<in> set [JStr ''log'', JStr ''warn'', JStr ''error'', JStr ''debug'']
      then check_types items else Some (InvalidType item))"

text \<open>\<^verbatim>\<open>for (let key in log) if (![...].includes(key)) throw ...\<close>\<close>

fun check_keys :: "string list \<Rightarrow> error option" where
  "check_keys [] = None"
| "check_keys (key # keys) =
     (if key \<in> set [''file'', ''memory'', ''emit'']
      then check_keys keys else Some (InvalidLog key))"

definition validate :: "runtime \<Rightarrow> jsval \<Rightarrow> jsval \<Rightarrow> error option" where
  "validate rt types log =
     (if \<not> truthy types then Some MissingTypes
      else if \<not> truthy log then Some MissingLog
      else case types of
        JArr items \<Rightarrow>
          if length items = 0 then Some TypesEmpty
          else if length (keys_of log) = 0 then Some LogEmpty
          else if truthy (get log ''file'') \<and> \<not> truthy (get (get log ''file'') ''dir'')
                  \<and> typeof (get (get log ''file'') ''dir'') \<noteq> ''string''
            then Some InvalidDir
          else if truthy (get log ''memory'') \<and> isNaN rt (get (get log ''memory'') ''history'')
            then Some InvalidMemoryHistory
          else if truthy (get log ''file'') \<and> truthy (get (get log ''file'') ''timestamp'')
                  \<and> typeof (get (get log ''file'') ''timestamp'') \<noteq> ''function''
            then Some InvalidFileTimestamp
          else (case check_types items of
                  Some e \<Rightarrow> Some e
                | None \<Rightarrow> check_keys (keys_of log))
      | _ \<Rightarrow> Some TypesNotArray)"

section \<open>Process state\<close>

text \<open>
  The output functions live in the process-wide \<^verbatim>\<open>console\<close> object. A function value is
  either one the logger did not create (\<open>Native\<close>, named after the slot it was found in) or
  the closure built at line 68, which captures the instance \<^verbatim>\<open>this\<close>, the loop variable
  \<^verbatim>\<open>item\<close>, the previous function \<^verbatim>\<open>o\<close> and the configuration object \<^verbatim>\<open>log\<close>. The marker
  \<^verbatim>\<open>modified\<close> is a property of the function object held by the slot. Logger instances
  live in a heap indexed by allocation order; an instance owns \<^verbatim>\<open>this.logs\<close> and, as an
  EventEmitter, its listeners in registration order.
\<close>

datatype jsfun = Native string | Wrapper nat string jsfun jsval

record fnobj =
  code :: jsfun
  modified :: bool

record entry =
  time :: date
  message :: string

record logger =
  logs :: "string \<rightharpoonup> entry list"
  listeners :: "(string \<times> nat) list"

datatype event =
    Called string "jsval list"
  | Appended string string
  | Notified nat string string

record world =
  console :: "string \<Rightarrow> fnobj"
  loggers :: "nat \<Rightarrow> logger"
  next_logger :: nat
  ticks :: nat
  trace :: "event list"

definition new_Date :: "runtime \<Rightarrow> world \<Rightarrow> date \<times> world" where
  "new_Date rt w = (now rt (ticks w), w\<lparr>ticks := Suc (ticks w)\<rparr>)"

section \<open>Rendering (lines 71 to 77)\<close>

text \<open>
  \<^verbatim>\<open>(typeof item == "object" || typeof item == "function" ? util.inspect(item) : item) + " "\<close>:
  the last equation covers exactly the values whose \<^verbatim>\<open>typeof\<close> is \<^verbatim>\<open>"object"\<close> or
  \<^verbatim>\<open>"function"\<close> (null, functions, arrays, objects); the others are appended to a string
  and so converted by the language.
\<close>

fun render_arg :: "runtime \<Rightarrow> jsval \<Rightarrow> string" where
  "render_arg rt JUndefined = ''undefined''"
| "render_arg rt (JBool b) = (if b then ''true'' else ''false'')"
| "render_arg rt (JNum n) = number_to_string rt n"
| "render_arg rt (JStr s) = s"
| "render_arg rt v = inspect rt v"

text \<open>
  \<^verbatim>\<open>String.prototype.trim\<close> removes white space and line terminators at both ends; below
  code unit 256 these are tab, LF, VT, FF, CR, space and the no-break space.
\<close>

definition is_ws :: "char \<Rightarrow> bool" where
  "is_ws c = (c \<in> set [CHR 0x09, CHR 0x0A, CHR 0x0B, CHR 0x0C, CHR 0x0D, CHR '' '', CHR 0xA0])"

definition trim_end :: "string \<Rightarrow> string" where
  "trim_end s = rev (dropWhile is_ws (rev s))"

definition trim :: "string \<Rightarrow> string" where
  "trim s = dropWhile is_ws (trim_end s)"

fun render_loop :: "runtime \<Rightarrow> string \<Rightarrow> jsval list \<Rightarrow> string" where
  "render_loop rt str [] = str"
| "render_loop rt str (item # items) = render_loop rt (str @ render_arg rt item @ '' '') items"

definition render :: "runtime \<Rightarrow> jsval list \<Rightarrow> string" where
  "render rt args = trim (render_loop rt [] args)"

section \<open>The sinks (lines 79 to 94)\<close>

definition appendFileSync :: "runtime \<Rightarrow> string \<Rightarrow> string \<Rightarrow> world \<Rightarrow> error option \<times> world" where
  "appendFileSync rt path data w =
     (if append_fails rt path data then (Some AppendFailed, w)
      else (None, w\<lparr>trace := trace w @ [Appended path data]\<rparr>))"

text \<open>
  \<^verbatim>\<open>path.resolve\<close> rejects an argument that is not a string. In the call of the timestamp
  function the argument \<^verbatim>\<open>new Date()\<close> is evaluated before the call is attempted.
\<close>

definition file_sink :: "runtime \<Rightarrow> string \<Rightarrow> jsval \<Rightarrow> string \<Rightarrow> world \<Rightarrow> error option \<times> world" where
  "file_sink rt item log str w =
     (if truthy (get log ''file'') then
        (let (d, w1) = new_Date rt w;
             fn = item @ ''_'' @ number_to_string rt (Fin (utc_full_year rt d))
                       @ ''_'' @ number_to_string rt (Fin (utc_month rt d + 1))
                       @ ''_'' @ number_to_string rt (Fin (utc_date rt d)) @ ''.log''
         in case get (get log ''file'') ''dir'' of
              JStr dir \<Rightarrow>
                (let res = path_resolve rt dir fn
                 in if truthy (get (get log ''file'') ''timestamp'') then
                      (let (d2, w2) = new_Date rt w1
                       in case get (get log ''file'') ''timestamp'' of
                            JFun f \<Rightarrow>
                              (case timestamp_call rt f d2 of
                                 None \<Rightarrow> (Some TimestampThrew, w2)
                               | Some prefix \<Rightarrow> appendFileSync rt res (prefix @ str @ EOL rt) w2)
                          | _ \<Rightarrow> (Some TypeError, w2))
                    else appendFileSync rt res (str @ EOL rt) w1)
            | _ \<Rightarrow> (Some TypeError, w1))
      else (None, w))"

text \<open>
  \<^verbatim>\<open>length >= history\<close> and \<^verbatim>\<open>length - history\<close> on the coerced bound, and
  \<^verbatim>\<open>xs.splice(0, count)\<close>, which clamps the count to between 0 and the length (NaN counts
  as 0) and removes that many elements from the front.
\<close>

definition ge_num :: "nat \<Rightarrow> jsnum \<Rightarrow> bool" where
  "ge_num n h = (case h of NaN \<Rightarrow> False | Fin k \<Rightarrow> k \<le> int n)"

definition minus_num :: "nat \<Rightarrow> jsnum \<Rightarrow> jsnum" where
  "minus_num n h = (case h of NaN \<Rightarrow> NaN | Fin k \<Rightarrow> Fin (int n - k))"

definition splice_front :: "jsnum \<Rightarrow> 'a list \<Rightarrow> 'a list" where
  "splice_front count xs =
     (case count of
        NaN \<Rightarrow> xs
      | Fin c \<Rightarrow> drop (nat (min (max c 0) (int (length xs)))) xs)"

definition memory_sink :: "runtime \<Rightarrow> nat \<Rightarrow> string \<Rightarrow> jsval \<Rightarrow> string \<Rightarrow> world \<Rightarrow> error option \<times> world" where
  "memory_sink rt this item log str w =
     (if truthy (get log ''memory'') then
        (case logs (loggers w this) item of
           None \<Rightarrow> (Some TypeError, w)
         | Some xs \<Rightarrow>
             (let (d, w1) = new_Date rt w;
                  ys = xs @ [\<lparr>time = d, message = str\<rparr>];
                  h = to_number rt (get (get log ''memory'') ''history'');
                  zs = (if ge_num (length ys) h then splice_front (minus_num (length ys) h) ys else ys)
              in (None, w1\<lparr>loggers := (loggers w1)
                    (this := (loggers w1 this)\<lparr>logs := (logs (loggers w1 this))(item \<mapsto> zs)\<rparr>)\<rparr>)))
      else (None, w))"

text \<open>
  \<^verbatim>\<open>EventEmitter.prototype.emit\<close>: the listeners registered for the event name run in
  registration order and an exception of one of them propagates; an \<^verbatim>\<open>"error"\<close> event
  without a listener throws.
\<close>

fun notify :: "runtime \<Rightarrow> nat list \<Rightarrow> string \<Rightarrow> string \<Rightarrow> world \<Rightarrow> error option \<times> world" where
  "notify rt [] name payload w = (None, w)"
| "notify rt (l # ls) name payload w =
     (let w1 = w\<lparr>trace := trace w @ [Notified l name payload]\<rparr>
      in if listener_throws rt l payload then (Some ListenerThrew, w1)
         else notify rt ls name payload w1)"

definition emit :: "runtime \<Rightarrow> nat \<Rightarrow> string \<Rightarrow> string \<Rightarrow> world \<Rightarrow> error option \<times> world" where
  "emit rt this name payload w =
     (let ls = map snd (filter (\<lambda>(n, l). n = name) (listeners (loggers w this)))
      in if ls = [] then (if name = ''error'' then (Some UnhandledError, w) else (None, w))
         else notify rt ls name payload w)"

definition emit_sink :: "runtime \<Rightarrow> nat \<Rightarrow> string \<Rightarrow> jsval \<Rightarrow> string \<Rightarrow> world \<Rightarrow> error option \<times> world" where
  "emit_sink rt this item log str w =
     (if truthy (get log ''emit'') then emit rt this item str w else (None, w))"

definition sinks :: "runtime \<Rightarrow> nat \<Rightarrow> string \<Rightarrow> jsval \<Rightarrow> string \<Rightarrow> world \<Rightarrow> error option \<times> world" where
  "sinks rt this item log str w =
     (case file_sink rt item log str w of
        (Some e, w1) \<Rightarrow> (Some e, w1)
      | (None, w1) \<Rightarrow>
          (case memory_sink rt this item log str w1 of
             (Some e, w2) \<Rightarrow> (Some e, w2)
           | (None, w2) \<Rightarrow> emit_sink rt this item log str w2))"

section \<open>Calling an output function (lines 68 to 95)\<close>

text \<open>
  A function the logger did not create is observed through the trace. The wrapper calls
  \<^verbatim>\<open>o(...args)\<close>, renders the arguments and runs the sinks; an exception ends the call.
\<close>

fun call :: "runtime \<Rightarrow> jsfun \<Rightarrow> jsval list \<Rightarrow> world \<Rightarrow> error option \<times> world" where
  "call rt (Native name) args w =
     (let w1 = w\<lparr>trace := trace w @ [Called name args]\<rparr>
      in if original_throws rt name args then (Some OriginalThrew, w1) else (None, w1))"
| "call rt (Wrapper this item orig log) args w =
     (case call rt orig args w of
        (Some e, w1) \<Rightarrow> (Some e, w1)
      | (None, w1) \<Rightarrow> sinks rt this item log (render rt args) w1)"

text \<open>\<^verbatim>\<open>console[name](...args)\<close>, and a run of such calls, each with its outcome.\<close>

definition invoke :: "runtime \<Rightarrow> string \<Rightarrow> jsval list \<Rightarrow> world \<Rightarrow> error option \<times> world" where
  "invoke rt name args w = call rt (code (console w name)) args w"

fun run :: "runtime \<Rightarrow> (string \<times> jsval list) list \<Rightarrow> world \<Rightarrow> error option list \<times> world" where
  "run rt [] w = ([], w)"
| "run rt ((name, args) # calls) w =
     (let (r, w1) = invoke rt name args w;
          (rs, w2) = run rt calls w1
      in (r # rs, w2))"

section \<open>Construction (lines 32 to 99)\<close>

text \<open>
  The installation loop, lines 60 to 98. After validation every element of \<^verbatim>\<open>types\<close> is
  one of the four names; for any other value \<^verbatim>\<open>console[item]\<close> would be undefined and the
  read of its marker a TypeError.
\<close>

fun install :: "nat \<Rightarrow> jsval \<Rightarrow> jsval list \<Rightarrow> world \<Rightarrow> error option \<times> world" where
  "install this log [] w = (None, w)"
| "install this log (JStr item # items) w =
     (if modified (console w item) then (Some (AttachedMultipleTimes item), w)
      else
        (let orig = code (console w item);
             w1 = w\<lparr>loggers := (loggers w)
                    (this := (loggers w this)\<lparr>logs := (logs (loggers w this))(item \<mapsto> [])\<rparr>)\<rparr>;
             w2 = w1\<lparr>console := (console w1)
                    (item := \<lparr>code = Wrapper this item orig log, modified = False\<rparr>)\<rparr>;
             w3 = w2\<lparr>console := (console w2)(item := (console w2 item)\<lparr>modified := True\<rparr>)\<rparr>
         in install this log items w3))"
| "install this log (v # items) w = (Some TypeError, w)"

text \<open>
  \<^verbatim>\<open>super(); this.logs = {};\<close> (lines 33 to 35): the new instance, with an empty \<^verbatim>\<open>logs\<close>
  object and no listener.
\<close>

definition alloc :: "world \<Rightarrow> world" where
  "alloc w = w\<lparr>next_logger := Suc (next_logger w),
              loggers := (loggers w)(next_logger w := \<lparr>logs = Map.empty, listeners = []\<rparr>)\<rparr>"

text \<open>
  \<^verbatim>\<open>constructor({types, log} = {})\<close>: an undefined argument is replaced by \<^verbatim>\<open>{}\<close>, null
  cannot be destructured. The instance exists before anything is checked. The result is the
  error thrown or the new instance.
\<close>

definition Logger :: "runtime \<Rightarrow> jsval \<Rightarrow> world \<Rightarrow> (error + nat) \<times> world" where
  "Logger rt arg w =
     (if arg = JNull then (Inl TypeError, w)
      else
        (let cfg = (if arg = JUndefined then JObj [] else arg);
             types = get cfg ''types'';
             log = get cfg ''log'';
             this = next_logger w;
             w0 = alloc w
         in case validate rt types log of
              Some e \<Rightarrow> (Inl e, w0)
            | None \<Rightarrow>
                (case types of
                   JArr items \<Rightarrow>
                     (case install this log items w0 of
                        (Some e, w1) \<Rightarrow> (Inl e, w1)
                      | (None, w1) \<Rightarrow> (Inr this, w1))
                 | _ \<Rightarrow> (Inl TypeError, w0))))"

text \<open>\<^verbatim>\<open>logger.on(name, listener)\<close>, inherited from EventEmitter.\<close>

definition on :: "nat \<Rightarrow> string \<Rightarrow> nat \<Rightarrow> world \<Rightarrow> world" where
  "on this name l w =
     w\<lparr>loggers := (loggers w)
         (this := (loggers w this)\<lparr>listeners := listeners (loggers w this) @ [(name, l)]\<rparr>)\<rparr>"

section \<open>A process at start-up\<close>

text \<open>
  The console of a process in which nothing has been wrapped, and a runtime for the
  concrete examples: decimal numbers, dates counted in days of a 360-day year, a file system
  that never fails, callbacks that never throw.
\<close>

definition fresh :: world where
  "fresh = \<lparr>console = (\<lambda>name. \<lparr>code = Native name, modified = False\<rparr>),
            loggers = (\<lambda>i. \<lparr>logs = Map.empty, listeners = []\<rparr>),
            next_logger = 0, ticks = 0, trace = []\<rparr>"

definition example_runtime :: runtime where
  "example_runtime =
     \<lparr>inspect = (\<lambda>v. ''[inspected]''),
      number_to_string = (\<lambda>n. case n of NaN \<Rightarrow> ''NaN'' | Fin i \<Rightarrow> int_to_string i),
      string_to_number = (\<lambda>s. NaN),
      object_to_number = (\<lambda>v. NaN),
      now = (\<lambda>n. n),
      utc_full_year = (\<lambda>d. 1970 + int (d div 360)),
      utc_month = (\<lambda>d. int ((d mod 360) div 30)),
      utc_date = (\<lambda>d. 1 + int (d mod 30)),
      path_resolve = (\<lambda>dir fn. dir @ ''/'' @ fn),
      EOL = [CHR 0x0A],
      timestamp_call = (\<lambda>f d. Some []),
      append_fails = (\<lambda>path data. False),
      original_throws = (\<lambda>name args. False),
      listener_throws = (\<lambda>l payload. False)\<rparr>"


section \<open>Notions used in the statements\<close>

text \<open>
  The spec's words for the rendered message: the renderings of the arguments, separated by
  single spaces.
\<close>

fun join_spaces :: "string list \<Rightarrow> string" where
  "join_spaces [] = []"
| "join_spaces [x] = x"
| "join_spaces (x # y # zs) = x @ '' '' @ join_spaces (y # zs)"

text \<open>The last \<open>k\<close> elements of a sequence, in order.\<close>

definition last_n :: "nat \<Rightarrow> 'a list \<Rightarrow> 'a list" where
  "last_n k xs = drop (length xs - k) xs"

text \<open>
  The instances whose sinks a function value runs, and the well-formed process states: the
  closures held by the console belong to instances that exist.
\<close>

fun ids :: "jsfun \<Rightarrow> nat set" where
  "ids (Native name) = {}"
| "ids (Wrapper this item orig log) = insert this (ids orig)"

definition wf_world :: "world \<Rightarrow> bool" where
  "wf_world w = (\<forall>name. \<forall>i\<in>ids (code (console w name)). i < next_logger w)"

text \<open>No closure of instance \<open>this\<close> inside a function value has the memory sink switched on.\<close>

fun memoryless :: "nat \<Rightarrow> jsfun \<Rightarrow> bool" where
  "memoryless this (Native name) = True"
| "memoryless this (Wrapper t item orig log) =
     ((t = this \<longrightarrow> \<not> truthy (get log ''memory'')) \<and> memoryless this orig)"

text \<open>
  The number of interceptions layered in a function value, and the process invariant: a slot
  holds one interception when its function carries the marker and none otherwise.
\<close>

fun interceptions :: "jsfun \<Rightarrow> nat" where
  "interceptions (Native name) = 0"
| "interceptions (Wrapper this item orig log) = Suc (interceptions orig)"

definition single_interception :: "world \<Rightarrow> bool" where
  "single_interception w =
     (\<forall>name. interceptions (code (console w name)) = (if modified (console w name) then 1 else 0))"

text \<open>The events a sink produces, as opposed to the call of an original output function.\<close>

fun is_sink_event :: "event \<Rightarrow> bool" where
  "is_sink_event (Called name args) = False"
| "is_sink_event (Appended path data) = True"
| "is_sink_event (Notified l name payload) = True"

section \<open>Example configurations\<close>

definition memory_config :: jsval where
  "memory_config = JObj [(''types'', JArr [JStr ''log'']),
                         (''log'', JObj [(''memory'', JObj [(''history'', JNum (Fin 2))])])]"

definition emit_config :: jsval where
  "emit_config = JObj [(''types'', JArr [JStr ''log'']), (''log'', JObj [(''emit'', JBool True)])]"

definition file_config :: jsval where
  "file_config = JObj [(''types'', JArr [JStr ''log'']),
                       (''log'', JObj [(''file'', JObj [(''dir'', JStr ''/tmp'')]), (''emit'', JBool True)])]"

definition duplicate_config :: jsval where
  "duplicate_config = JObj [(''types'', JArr [JStr ''log'', JStr ''log'']),
                            (''log'', JObj [(''emit'', JBool True)])]"

definition second_config :: jsval where
  "second_config = JObj [(''types'', JArr [JStr ''warn'', JStr ''log'']),
                         (''log'', JObj [(''emit'', JBool True)])]"

definition history_config :: "jsval \<Rightarrow> jsval" where
  "history_config h = JObj [(''types'', JArr [JStr ''log'']),
                            (''log'', JObj [(''memory'', JObj [(''history'', h)])])]"

definition dir_config :: "jsval \<Rightarrow> jsval" where
  "dir_config d = JObj [(''types'', JArr [JStr ''log'']),
                        (''log'', JObj [(''file'', JObj [(''dir'', d)])])]"

section \<open>Rendering\<close>

lemma trim_end_snoc_ws: "is_ws c \<Longrightarrow> trim_end (s @ [c]) = trim_end s"
  by (simp add: trim_end_def)

lemma trim_snoc_space: "trim (s @ '' '') = trim s"
  by (simp add: trim_def trim_end_snoc_ws is_ws_def)

lemma render_loop_acc: "render_loop rt str args = str @ render_loop rt [] args"
proof (induction args arbitrary: str)
  case Nil
  show ?case by simp
next
  case (Cons a args)
  have "render_loop rt (str @ render_arg rt a @ '' '') args
        = (str @ render_arg rt a @ '' '') @ render_loop rt [] args"
    by (rule Cons.IH)
  moreover have "render_loop rt (render_arg rt a @ '' '') args
        = (render_arg rt a @ '' '') @ render_loop rt [] args"
    by (rule Cons.IH)
  ultimately show ?case by simp
qed

lemma render_loop_join:
  "args \<noteq> [] \<Longrightarrow> render_loop rt [] args = join_spaces (map (render_arg rt) args) @ '' ''"
proof (induction args rule: induct_list012)
  case 1
  then show ?case by simp
next
  case (2 a)
  show ?case by simp
next
  case (3 a b args)
  have "render_loop rt [] (a # b # args) = (render_arg rt a @ '' '') @ render_loop rt [] (b # args)"
    using render_loop_acc [of rt "render_arg rt a @ '' ''" "b # args"] by simp
  with 3 show ?case by simp
qed

lemma render_arg_inspect:
  "typeof v = ''object'' \<or> typeof v = ''function'' \<Longrightarrow> render_arg rt v = inspect rt v"
  by (cases v) simp_all

lemma render_single_letter: "render rt [JStr [c]] = (if is_ws c then [] else [c])"
  by (simp add: render_def trim_def trim_end_def is_ws_def)


section \<open>What a call leaves unchanged\<close>

lemma appendFileSync_frame:
  "appendFileSync rt path data w = (r, w') \<Longrightarrow>
     console w' = console w \<and> loggers w' = loggers w \<and> next_logger w' = next_logger w"
  by (auto simp: appendFileSync_def split: if_splits)

lemma file_sink_frame:
  assumes "file_sink rt item log str w = (r, w')"
  shows "console w' = console w \<and> loggers w' = loggers w \<and> next_logger w' = next_logger w"
proof (cases "truthy (get log ''file'')")
  case False
  with assms show ?thesis by (simp add: file_sink_def)
next
  case True
  with assms show ?thesis
    by (auto simp: file_sink_def new_Date_def Let_def
             split: jsval.splits if_splits option.splits dest!: appendFileSync_frame)
qed

lemma memory_sink_frame:
  assumes "memory_sink rt this item log str w = (r, w')"
  shows "console w' = console w \<and> next_logger w' = next_logger w
         \<and> (\<forall>i. i \<noteq> this \<longrightarrow> loggers w' i = loggers w i)
         \<and> listeners (loggers w' this) = listeners (loggers w this)
         \<and> (\<forall>name. name \<noteq> item \<longrightarrow> logs (loggers w' this) name = logs (loggers w this) name)"
  using assms
  by (auto simp: memory_sink_def new_Date_def Let_def split: if_splits option.splits)

lemma memory_sink_off:
  "\<not> truthy (get log ''memory'') \<Longrightarrow> memory_sink rt this item log str w = (None, w)"
  by (simp add: memory_sink_def)

lemma notify_frame:
  "notify rt ls name payload w = (r, w') \<Longrightarrow>
     console w' = console w \<and> loggers w' = loggers w \<and> next_logger w' = next_logger w"
  by (induction ls arbitrary: w) (auto simp: Let_def split: if_splits)

lemma emit_sink_frame:
  assumes "emit_sink rt this item log str w = (r, w')"
  shows "console w' = console w \<and> loggers w' = loggers w \<and> next_logger w' = next_logger w"
  using assms
  by (auto simp: emit_sink_def emit_def Let_def split: if_splits dest!: notify_frame)

lemma sinks_cases:
  assumes "sinks rt this item log str w = (r, w')"
  obtains (at_file) e where "file_sink rt item log str w = (Some e, w')" "r = Some e"
        | (at_memory) w1 e where "file_sink rt item log str w = (None, w1)"
             "memory_sink rt this item log str w1 = (Some e, w')" "r = Some e"
        | (at_emit) w1 w2 where "file_sink rt item log str w = (None, w1)"
             "memory_sink rt this item log str w1 = (None, w2)"
             "emit_sink rt this item log str w2 = (r, w')"
  using assms
  by (auto simp: sinks_def split: prod.splits option.splits)

lemma sinks_frame:
  assumes "sinks rt this item log str w = (r, w')"
  shows "console w' = console w \<and> next_logger w' = next_logger w
         \<and> (\<forall>i. i \<noteq> this \<longrightarrow> loggers w' i = loggers w i)"
  using assms
proof (cases rule: sinks_cases)
  case (at_file e)
  then show ?thesis using file_sink_frame by metis
next
  case (at_memory w1 e)
  then show ?thesis using file_sink_frame [of rt item log str w None w1]
      memory_sink_frame [of rt this item log str w1 "Some e" w'] by simp
next
  case (at_emit w1 w2)
  then show ?thesis using file_sink_frame [of rt item log str w None w1]
      memory_sink_frame [of rt this item log str w1 None w2]
      emit_sink_frame [of rt this item log str w2 r w'] by simp
qed

lemma call_frame:
  "call rt f args w = (r, w') \<Longrightarrow>
     console w' = console w \<and> next_logger w' = next_logger w
     \<and> (\<forall>i. i \<notin> ids f \<longrightarrow> loggers w' i = loggers w i)"
proof (induction f arbitrary: r w')
  case (Native name)
  then show ?case by (auto simp: Let_def split: if_splits)
next
  case (Wrapper this item orig log)
  obtain r1 w1 where c: "call rt orig args w = (r1, w1)" by (cases "call rt orig args w")
  note ih = Wrapper.IH [OF c]
  show ?case
  proof (cases r1)
    case (Some e)
    with c Wrapper.prems have "w' = w1" by simp
    with ih show ?thesis by simp
  next
    case None
    with c Wrapper.prems have "sinks rt this item log (render rt args) w1 = (r, w')" by simp
    from sinks_frame [OF this] ih show ?thesis by simp
  qed
qed

lemma run_Cons:
  "run rt ((name, args) # calls) w = (rs, w') \<Longrightarrow>
     \<exists>r w1 rs'. invoke rt name args w = (r, w1) \<and> run rt calls w1 = (rs', w') \<and> rs = r # rs'"
  by (auto simp: Let_def split: prod.splits)

lemma invoke_console: "invoke rt name args w = (r, w') \<Longrightarrow> console w' = console w"
  by (auto simp: invoke_def dest: call_frame)


section \<open>What a call adds to the trace\<close>

lemma appendFileSync_trace:
  "appendFileSync rt path data w = (r, w') \<Longrightarrow>
     \<exists>rest. trace w' = trace w @ rest \<and> (\<forall>e\<in>set rest. is_sink_event e)"
  by (auto simp: appendFileSync_def split: if_splits)

lemma file_sink_trace:
  assumes "file_sink rt item log str w = (r, w')"
  shows "\<exists>rest. trace w' = trace w @ rest \<and> (\<forall>e\<in>set rest. is_sink_event e)"
proof (cases "truthy (get log ''file'')")
  case False
  with assms show ?thesis by (simp add: file_sink_def)
next
  case True
  with assms show ?thesis
    by (auto simp: file_sink_def new_Date_def Let_def
             split: jsval.splits if_splits option.splits dest!: appendFileSync_trace)
qed

lemma memory_sink_trace:
  "memory_sink rt this item log str w = (r, w') \<Longrightarrow> trace w' = trace w"
  by (auto simp: memory_sink_def new_Date_def Let_def split: if_splits option.splits)

lemma notify_trace:
  "notify rt ls name payload w = (r, w') \<Longrightarrow>
     \<exists>rest. trace w' = trace w @ rest \<and> (\<forall>e\<in>set rest. is_sink_event e)"
proof (induction ls arbitrary: w)
  case Nil
  then show ?case by simp
next
  case (Cons l ls)
  show ?case
  proof (cases "listener_throws rt l payload")
    case True
    with Cons.prems show ?thesis by (auto simp: Let_def)
  next
    case False
    with Cons.prems
    have "notify rt ls name payload (w\<lparr>trace := trace w @ [Notified l name payload]\<rparr>) = (r, w')"
      by (simp add: Let_def)
    from Cons.IH [OF this] obtain rest where
      "trace w' = trace w @ Notified l name payload # rest" "\<forall>e\<in>set rest. is_sink_event e"
      by auto
    then have "trace w' = trace w @ (Notified l name payload # rest)
                 \<and> (\<forall>e\<in>set (Notified l name payload # rest). is_sink_event e)" by simp
    then show ?thesis by blast
  qed
qed

lemma emit_sink_trace:
  assumes "emit_sink rt this item log str w = (r, w')"
  shows "\<exists>rest. trace w' = trace w @ rest \<and> (\<forall>e\<in>set rest. is_sink_event e)"
  using assms
  by (auto simp: emit_sink_def emit_def Let_def split: if_splits dest!: notify_trace)

lemma sinks_trace:
  assumes "sinks rt this item log str w = (r, w')"
  shows "\<exists>rest. trace w' = trace w @ rest \<and> (\<forall>e\<in>set rest. is_sink_event e)"
  using assms
proof (cases rule: sinks_cases)
  case (at_file e)
  then show ?thesis using file_sink_trace by blast
next
  case (at_memory w1 e)
  from file_sink_trace [OF at_memory(1)] memory_sink_trace [OF at_memory(2)]
  show ?thesis by simp
next
  case (at_emit w1 w2)
  from file_sink_trace [OF at_emit(1)] obtain r1 where
    r1: "trace w1 = trace w @ r1" "\<forall>e\<in>set r1. is_sink_event e" by blast
  from emit_sink_trace [OF at_emit(3)] obtain r2 where
    r2: "trace w' = trace w2 @ r2" "\<forall>e\<in>set r2. is_sink_event e" by blast
  from r1 r2 memory_sink_trace [OF at_emit(2)]
  have "trace w' = trace w @ (r1 @ r2) \<and> (\<forall>e\<in>set (r1 @ r2). is_sink_event e)" by auto
  then show ?thesis by blast
qed


section \<open>The installation loop\<close>

lemma install_frame:
  "install this log items w = (r, w') \<Longrightarrow>
     next_logger w' = next_logger w \<and> ticks w' = ticks w \<and> trace w' = trace w
     \<and> (\<forall>i. i \<noteq> this \<longrightarrow> loggers w' i = loggers w i)
     \<and> listeners (loggers w' this) = listeners (loggers w this)"
proof (induction items arbitrary: w)
  case Nil
  then show ?case by simp
next
  case (Cons a items)
  show ?case
  proof (cases a)
    case (JStr item)
    show ?thesis
    proof (cases "modified (console w item)")
      case True
      with Cons.prems JStr show ?thesis by simp
    next
      case False
      with Cons.prems JStr show ?thesis
        by (auto simp: Let_def dest!: Cons.IH)
    qed
  qed (use Cons.prems in simp_all)
qed

lemma install_slot:
  "install this log items w = (r, w') \<Longrightarrow>
     console w' name = console w name
     \<or> (\<not> modified (console w name)
        \<and> console w' name = \<lparr>code = Wrapper this name (code (console w name)) log, modified = True\<rparr>)"
proof (induction items arbitrary: w)
  case Nil
  then show ?case by simp
next
  case (Cons a items)
  show ?case
  proof (cases a)
    case (JStr item)
    show ?thesis
    proof (cases "modified (console w item)")
      case True
      with Cons.prems JStr show ?thesis by simp
    next
      case False
      with Cons.prems JStr show ?thesis
        by (auto simp: Let_def dest!: Cons.IH split: if_splits)
    qed
  qed (use Cons.prems in simp_all)
qed

lemma install_untouched:
  "install this log items w = (r, w') \<Longrightarrow> JStr name \<notin> set items \<Longrightarrow>
     console w' name = console w name \<and> logs (loggers w' this) name = logs (loggers w this) name"
proof (induction items arbitrary: w)
  case Nil
  then show ?case by simp
next
  case (Cons a items)
  show ?case
  proof (cases a)
    case (JStr item)
    show ?thesis
    proof (cases "modified (console w item)")
      case True
      with Cons.prems JStr show ?thesis by simp
    next
      case False
      with Cons.prems JStr show ?thesis
        by (auto simp: Let_def dest!: Cons.IH)
    qed
  qed (use Cons.prems in simp_all)
qed

lemma install_wrapped:
  "install this log items w = (None, w') \<Longrightarrow> JStr name \<in> set items \<Longrightarrow>
     \<not> modified (console w name)
     \<and> console w' name = \<lparr>code = Wrapper this name (code (console w name)) log, modified = True\<rparr>
     \<and> logs (loggers w' this) name = Some []"
proof (induction items arbitrary: w name)
  case Nil
  then show ?case by simp
next
  case (Cons a items)
  show ?case
  proof (cases a)
    case (JStr item)
    with Cons.prems have unmarked: "\<not> modified (console w item)"
      by (auto split: if_splits)
    define w3 where "w3 = w\<lparr>loggers := (loggers w)
                    (this := (loggers w this)\<lparr>logs := (logs (loggers w this))(item \<mapsto> [])\<rparr>),
                  console := (console w)
                    (item := \<lparr>code = Wrapper this item (code (console w item)) log, modified = True\<rparr>)\<rparr>"
    from Cons.prems JStr unmarked have rest: "install this log items w3 = (None, w')"
      by (simp add: Let_def w3_def)
    show ?thesis
    proof (cases "name = item")
      case True
      have "modified (console w3 item)" by (simp add: w3_def)
      with install_slot [OF rest, of item] have "console w' item = console w3 item" by auto
      moreover have "JStr item \<notin> set items"
      proof
        assume "JStr item \<in> set items"
        from Cons.IH [OF rest this] \<open>modified (console w3 item)\<close> show False by simp
      qed
      from install_untouched [OF rest this]
      have "logs (loggers w' this) item = logs (loggers w3 this) item" by simp
      ultimately show ?thesis using True unmarked by (simp add: w3_def)
    next
      case False
      with Cons.prems JStr have "JStr name \<in> set items" by simp
      from Cons.IH [OF rest this] False show ?thesis by (simp add: w3_def)
    qed
  qed (use Cons.prems in simp_all)
qed

lemma install_logs:
  "install this log items w = (None, w') \<Longrightarrow>
     logs (loggers w' this) name = (if JStr name \<in> set items then Some [] else logs (loggers w this) name)"
  using install_wrapped [of this log items w w' name] install_untouched [of this log items w None w' name]
  by simp

lemma check_types_JStr:
  "check_types items = None \<Longrightarrow> v \<in> set items \<Longrightarrow> \<exists>s. v = JStr s"
  by (induction items) (auto split: if_splits)

lemma install_marked:
  "install this log items w = (r, w') \<Longrightarrow> check_types items = None \<Longrightarrow>
   JStr name \<in> set items \<Longrightarrow> modified (console w name) \<Longrightarrow>
     (\<exists>k. r = Some (AttachedMultipleTimes k)) \<and> console w' name = console w name"
proof (induction items arbitrary: w)
  case Nil
  then show ?case by simp
next
  case (Cons a items)
  from Cons.prems(2) obtain item where a: "a = JStr item"
    using check_types_JStr [of "a # items" a] by auto
  from Cons.prems(2) have ct: "check_types items = None" by (simp split: if_splits)
  show ?case
  proof (cases "modified (console w item)")
    case True
    with Cons.prems a show ?thesis by auto
  next
    case False
    with Cons.prems a have ne: "name \<noteq> item" by auto
    with Cons.prems a have mem: "JStr name \<in> set items" by simp
    define w3 where "w3 = w\<lparr>loggers := (loggers w)
                    (this := (loggers w this)\<lparr>logs := (logs (loggers w this))(item \<mapsto> [])\<rparr>),
                  console := (console w)
                    (item := \<lparr>code = Wrapper this item (code (console w item)) log, modified = True\<rparr>)\<rparr>"
    from Cons.prems(1) a False have rest: "install this log items w3 = (r, w')"
      by (simp add: Let_def w3_def)
    from ne Cons.prems(4) have "modified (console w3 name)" by (simp add: w3_def)
    from Cons.IH [OF rest ct mem this] ne show ?thesis by (simp add: w3_def)
  qed
qed

lemma install_duplicate:
  "check_types items = None \<Longrightarrow> \<not> distinct items \<Longrightarrow>
     \<exists>k w'. install this log items w = (Some (AttachedMultipleTimes k), w')"
proof (induction items arbitrary: w)
  case Nil
  then show ?case by simp
next
  case (Cons a items)
  from Cons.prems(1) obtain item where a: "a = JStr item"
    using check_types_JStr [of "a # items" a] by auto
  from Cons.prems(1) have ct: "check_types items = None" by (simp split: if_splits)
  show ?case
  proof (cases "modified (console w item)")
    case True
    with a show ?thesis by simp
  next
    case False
    define w3 where "w3 = w\<lparr>loggers := (loggers w)
                    (this := (loggers w this)\<lparr>logs := (logs (loggers w this))(item \<mapsto> [])\<rparr>),
                  console := (console w)
                    (item := \<lparr>code = Wrapper this item (code (console w item)) log, modified = True\<rparr>)\<rparr>"
    from a False have step: "install this log (a # items) w = install this log items w3"
      by (simp add: Let_def w3_def)
    show ?thesis
    proof (cases "JStr item \<in> set items")
      case True
      obtain r w' where i: "install this log items w3 = (r, w')"
        by (cases "install this log items w3")
      have "modified (console w3 item)" by (simp add: w3_def)
      from install_marked [OF i ct True this] i step show ?thesis by auto
    next
      case False
      with Cons.prems(2) a have "\<not> distinct items" by simp
      from Cons.IH [OF ct this, of w3] step show ?thesis by simp
    qed
  qed
qed

lemma install_error:
  "install this log items w = (Some e, w') \<Longrightarrow> e = TypeError \<or> (\<exists>k. e = AttachedMultipleTimes k)"
proof (induction items arbitrary: w)
  case Nil
  then show ?case by simp
next
  case (Cons a items)
  show ?case
  proof (cases a)
    case (JStr item)
    with Cons.prems show ?thesis
      by (auto simp: Let_def split: if_splits dest!: Cons.IH)
  qed (use Cons.prems in simp_all)
qed

lemma install_single_interception:
  assumes "install this log items w = (r, w')" and "single_interception w"
  shows "single_interception w'"
  unfolding single_interception_def
proof
  fix name
  from assms(2) have "interceptions (code (console w name))
      = (if modified (console w name) then 1 else 0)"
    by (simp add: single_interception_def)
  with install_slot [OF assms(1), of name]
  show "interceptions (code (console w' name)) = (if modified (console w' name) then 1 else 0)"
    by auto
qed


section \<open>Validation and construction\<close>

lemma check_types_set: "(check_types items = None) = (set items \<subseteq> set [JStr ''log'', JStr ''warn'', JStr ''error'', JStr ''debug''])"
  by (induction items) auto

lemma check_types_error: "check_types items = Some e \<Longrightarrow> \<exists>v. e = InvalidType v"
  by (induction items) (auto split: if_splits)

lemma check_keys_error: "check_keys ks = Some e \<Longrightarrow> \<exists>k. e = InvalidLog k"
  by (induction ks) (auto split: if_splits)

lemma validate_None:
  assumes "validate rt types log = None"
  obtains items where "types = JArr items" "items \<noteq> []" "check_types items = None"
    "check_keys (keys_of log) = None"
  using assms
  by (cases types) (auto simp: validate_def split: if_splits option.splits)

lemma validate_remdups:
  "(validate rt (JArr items) log = None) = (validate rt (JArr (remdups items)) log = None)"
proof -
  have "(check_types items = None) = (check_types (remdups items) = None)"
    by (simp add: check_types_set)
  moreover have "(items = []) = (remdups items = [])" by (induction items) auto
  ultimately show ?thesis
    by (auto simp: validate_def split: option.splits)
qed

lemma validate_history:
  "validate rt types log = Some InvalidMemoryHistory \<Longrightarrow>
     truthy (get log ''memory'') \<and> isNaN rt (get (get log ''memory'') ''history'')"
  by (cases types) (auto simp: validate_def split: if_splits option.splits
        dest: check_types_error check_keys_error)

lemma validate_NaN_history:
  "truthy (get log ''memory'') \<Longrightarrow> isNaN rt (get (get log ''memory'') ''history'') \<Longrightarrow>
     validate rt types log \<noteq> None"
  by (cases types) (auto simp: validate_def)

lemma alloc_frame [simp]:
  "console (alloc w) = console w" "trace (alloc w) = trace w" "ticks (alloc w) = ticks w"
  "next_logger (alloc w) = Suc (next_logger w)"
  "i \<noteq> next_logger w \<Longrightarrow> loggers (alloc w) i = loggers w i"
  "logs (loggers (alloc w) (next_logger w)) = Map.empty"
  by (simp_all add: alloc_def)

lemma Logger_null: "Logger rt JNull w = (Inl TypeError, w)"
  by (simp add: Logger_def)

lemma Logger_unfold:
  assumes "arg \<noteq> JNull"
  shows "Logger rt arg w =
     (case validate rt (get arg ''types'') (get arg ''log'') of
        Some e \<Rightarrow> (Inl e, alloc w)
      | None \<Rightarrow>
          (case get arg ''types'' of
             JArr items \<Rightarrow>
               (case install (next_logger w) (get arg ''log'') items (alloc w) of
                  (Some e, w1) \<Rightarrow> (Inl e, w1)
                | (None, w1) \<Rightarrow> (Inr (next_logger w), w1))
           | _ \<Rightarrow> (Inl TypeError, alloc w)))"
proof (cases "arg = JUndefined")
  case True
  then show ?thesis unfolding Logger_def Let_def by (simp add: validate_def)
next
  case False
  with assms show ?thesis unfolding Logger_def Let_def by simp
qed

lemma Logger_invalid:
  "arg \<noteq> JNull \<Longrightarrow> validate rt (get arg ''types'') (get arg ''log'') = Some e \<Longrightarrow>
     Logger rt arg w = (Inl e, alloc w)"
  by (simp add: Logger_unfold)

lemma Logger_valid:
  assumes "validate rt (get arg ''types'') (get arg ''log'') = None"
    and "get arg ''types'' = JArr items"
  shows "Logger rt arg w =
           (case install (next_logger w) (get arg ''log'') items (alloc w) of
              (Some e, w1) \<Rightarrow> (Inl e, w1)
            | (None, w1) \<Rightarrow> (Inr (next_logger w), w1))"
proof -
  from assms(2) have "arg \<noteq> JNull" by auto
  from Logger_unfold [OF this, of rt w] assms show ?thesis by simp
qed

lemma Logger_success:
  assumes "Logger rt arg w = (Inr this, w')"
  obtains items where "get arg ''types'' = JArr items" "check_types items = None"
    "validate rt (get arg ''types'') (get arg ''log'') = None"
    "this = next_logger w"
    "install (next_logger w) (get arg ''log'') items (alloc w) = (None, w')"
proof -
  from assms have nn: "arg \<noteq> JNull" by (auto simp: Logger_def)
  have v: "validate rt (get arg ''types'') (get arg ''log'') = None"
  proof (cases "validate rt (get arg ''types'') (get arg ''log'')")
    case (Some e)
    from Logger_invalid [OF nn Some] assms show ?thesis by simp
  qed simp
  from v obtain items where it: "get arg ''types'' = JArr items" "check_types items = None"
    by (rule validate_None)
  from Logger_valid [OF v it(1), of w] assms
  have "this = next_logger w \<and> install (next_logger w) (get arg ''log'') items (alloc w) = (None, w')"
    by (auto split: prod.splits option.splits)
  with it v that show thesis by blast
qed

lemma Logger_history_error:
  assumes "fst (Logger rt arg w) = Inl InvalidMemoryHistory"
  shows "validate rt (get arg ''types'') (get arg ''log'') = Some InvalidMemoryHistory"
proof -
  from assms have nn: "arg \<noteq> JNull" by (auto simp: Logger_null)
  show ?thesis
  proof (cases "validate rt (get arg ''types'') (get arg ''log'')")
    case (Some e)
    from Logger_invalid [OF nn Some, of w] assms Some show ?thesis by simp
  next
    case None
    then obtain items where it: "get arg ''types'' = JArr items" by (rule validate_None)
    obtain r w' where i: "install (next_logger w) (get arg ''log'') items (alloc w) = (r, w')"
      by (cases "install (next_logger w) (get arg ''log'') items (alloc w)")
    from Logger_valid [OF None it, of w] i assms have "r = Some InvalidMemoryHistory"
      by (cases r) simp_all
    with install_error [of "next_logger w" "get arg ''log''" items "alloc w" InvalidMemoryHistory w'] i
    show ?thesis by simp
  qed
qed

lemma Logger_single_interception:
  assumes "single_interception w"
  shows "single_interception (snd (Logger rt arg w))"
proof (cases "arg = JNull")
  case True
  with assms show ?thesis by (simp add: Logger_null)
next
  case False
  from assms have a: "single_interception (alloc w)" by (simp add: single_interception_def)
  show ?thesis
  proof (cases "validate rt (get arg ''types'') (get arg ''log'')")
    case (Some e)
    from Logger_invalid [OF False Some, of w] a show ?thesis by simp
  next
    case None
    then obtain items where it: "get arg ''types'' = JArr items" by (rule validate_None)
    obtain r w' where i: "install (next_logger w) (get arg ''log'') items (alloc w) = (r, w')"
      by (cases "install (next_logger w) (get arg ''log'') items (alloc w)")
    from install_single_interception [OF i a] have "single_interception w'" .
    with Logger_valid [OF None it, of w] i show ?thesis by (cases r) simp_all
  qed
qed


text \<open>
  The checks of lines 37 to 58 come before the loop of line 60: when one of them fails, the
  console is left as it was, and a console that has changed means that all of them passed.
\<close>

lemma validation_failure_leaves_console:
  "(arg \<noteq> JNull \<and> validate rt (get arg ''types'') (get arg ''log'') = Some e \<longrightarrow>
      fst (Logger rt arg w) = Inl e \<and> console (snd (Logger rt arg w)) = console w)
   \<and> (arg = JNull \<longrightarrow> Logger rt arg w = (Inl TypeError, w))
   \<and> (console (snd (Logger rt arg w)) \<noteq> console w \<longrightarrow>
        arg \<noteq> JNull \<and> validate rt (get arg ''types'') (get arg ''log'') = None)"
proof (intro conjI impI)
  assume "arg \<noteq> JNull \<and> validate rt (get arg ''types'') (get arg ''log'') = Some e"
  then have "Logger rt arg w = (Inl e, alloc w)" by (simp add: Logger_invalid)
  then show "fst (Logger rt arg w) = Inl e" "console (snd (Logger rt arg w)) = console w"
    by simp_all
next
  assume "arg = JNull"
  then show "Logger rt arg w = (Inl TypeError, w)" by (simp add: Logger_null)
next
  assume changed: "console (snd (Logger rt arg w)) \<noteq> console w"
  then show "arg \<noteq> JNull" by (auto simp: Logger_null)
  then show "validate rt (get arg ''types'') (get arg ''log'') = None"
    using changed by (cases "validate rt (get arg ''types'') (get arg ''log'')")
      (simp_all add: Logger_invalid)
qed

section \<open>The bounded history\<close>

lemma length_last_n: "length (last_n k xs) = min (length xs) k"
  by (auto simp: last_n_def)

lemma map_last_n: "map f (last_n k xs) = last_n k (map f xs)"
  by (simp add: last_n_def drop_map)

lemma last_n_snoc: "0 < k \<Longrightarrow> last_n k (last_n k xs @ [x]) = last_n k (xs @ [x])"
  by (cases "length xs \<le> k") (auto simp: last_n_def Suc_diff_le)

lemma get_defined_truthy: "get v k = JNum n \<Longrightarrow> truthy v"
  by (cases v) simp_all

lemma splice_front_last_n:
  "(if ge_num (length ys) (Fin (int H))
    then splice_front (minus_num (length ys) (Fin (int H))) ys else ys) = last_n H ys"
proof (cases "H \<le> length ys")
  case True
  then have "nat (min (max (int (length ys) - int H) 0) (int (length ys))) = length ys - H"
    by linarith
  with True show ?thesis
    by (simp add: ge_num_def minus_num_def splice_front_def last_n_def)
next
  case False
  then show ?thesis by (simp add: ge_num_def last_n_def)
qed

lemma memory_sink_bounded:
  assumes "get (get log ''memory'') ''history'' = JNum (Fin (int H))"
    and "logs (loggers w this) item = Some xs"
  shows "\<exists>d w'. memory_sink rt this item log str w = (None, w')
           \<and> logs (loggers w' this) item = Some (last_n H (xs @ [\<lparr>time = d, message = str\<rparr>]))"
proof -
  from assms(1) have "truthy (get log ''memory'')" by (rule get_defined_truthy)
  with assms splice_front_last_n [of "xs @ [\<lparr>time = now rt (ticks w), message = str\<rparr>]" H]
  have "memory_sink rt this item log str w
      = (None, snd (memory_sink rt this item log str w))
    \<and> logs (loggers (snd (memory_sink rt this item log str w)) this) item
        = Some (last_n H (xs @ [\<lparr>time = now rt (ticks w), message = str\<rparr>]))"
    unfolding memory_sink_def new_Date_def Let_def
    by (simp del: length_append split: if_splits)
  then show ?thesis by blast
qed

lemma wrapper_call_history:
  assumes fresh: "this \<notin> ids orig"
    and hist: "get (get log ''memory'') ''history'' = JNum (Fin (int H))"
    and before: "logs (loggers w this) item = Some xs"
    and call: "call rt (Wrapper this item orig log) args w = (r, w')"
  shows "(r \<noteq> None \<and> logs (loggers w' this) item = Some xs)
         \<or> (\<exists>d. logs (loggers w' this) item
                  = Some (last_n H (xs @ [\<lparr>time = d, message = render rt args\<rparr>])))"
proof -
  obtain r1 w1 where c: "call rt orig args w = (r1, w1)" by (cases "call rt orig args w")
  from call_frame [OF c] fresh have l1: "loggers w1 this = loggers w this" by simp
  show ?thesis
  proof (cases r1)
    case (Some e)
    with c call have "r = Some e" "w' = w1" by simp_all
    with l1 before show ?thesis by simp
  next
    case None
    with c call have "sinks rt this item log (render rt args) w1 = (r, w')" by simp
    then show ?thesis
    proof (cases rule: sinks_cases)
      case (at_file e)
      from file_sink_frame [OF at_file(1)] l1 before at_file(2) show ?thesis by simp
    next
      case (at_memory w2 e)
      from file_sink_frame [OF at_memory(1)] l1 before
      have "logs (loggers w2 this) item = Some xs" by simp
      from memory_sink_bounded [OF hist this, of rt "render rt args"] at_memory(2)
      show ?thesis by auto
    next
      case (at_emit w2 w3)
      from file_sink_frame [OF at_emit(1)] l1 before
      have "logs (loggers w2 this) item = Some xs" by simp
      from memory_sink_bounded [OF hist this, of rt "render rt args"] at_emit(2)
      obtain d where "logs (loggers w3 this) item
          = Some (last_n H (xs @ [\<lparr>time = d, message = render rt args\<rparr>]))" by auto
      with emit_sink_frame [OF at_emit(3)] show ?thesis by auto
    qed
  qed
qed

lemma wrapper_call_history_ok:
  assumes "this \<notin> ids orig"
    and "get (get log ''memory'') ''history'' = JNum (Fin (int H))"
    and "logs (loggers w this) item = Some xs"
    and "call rt (Wrapper this item orig log) args w = (None, w')"
  shows "\<exists>d. logs (loggers w' this) item
                  = Some (last_n H (xs @ [\<lparr>time = d, message = render rt args\<rparr>]))"
  using wrapper_call_history [OF assms] by simp

lemma run_history_bounded:
  assumes "code (console w item) = Wrapper this item orig log" and "this \<notin> ids orig"
    and "get (get log ''memory'') ''history'' = JNum (Fin (int H))"
    and "run rt (map (Pair item) argss) w = (rs, w')"
    and "logs (loggers w this) item = Some xs" and "length xs \<le> H"
  shows "\<exists>ys. logs (loggers w' this) item = Some ys \<and> length ys \<le> H"
  using assms(1,4,5,6)
proof (induction argss arbitrary: w rs xs)
  case Nil
  then show ?case by simp
next
  case (Cons args argss)
  from Cons.prems(2) have "run rt ((item, args) # map (Pair item) argss) w = (rs, w')"
    by (simp del: run.simps)
  from run_Cons [OF this] obtain r w1 rs' where
    i: "invoke rt item args w = (r, w1)" and rest: "run rt (map (Pair item) argss) w1 = (rs', w')"
    by blast
  from i Cons.prems(1) have c: "call rt (Wrapper this item orig log) args w = (r, w1)"
    by (simp add: invoke_def)
  from invoke_console [OF i] Cons.prems(1)
  have slot: "code (console w1 item) = Wrapper this item orig log" by simp
  from wrapper_call_history [OF assms(2,3) Cons.prems(3) c] Cons.prems(4)
  obtain zs where "logs (loggers w1 this) item = Some zs" "length zs \<le> H"
    by (auto simp: length_last_n)
  from Cons.IH [OF slot rest this] show ?case .
qed

lemma run_history_content:
  assumes "code (console w item) = Wrapper this item orig log" and "this \<notin> ids orig"
    and "get (get log ''memory'') ''history'' = JNum (Fin (int H))" and "0 < H"
    and "run rt (map (Pair item) argss) w = (rs, w')" and "\<forall>r\<in>set rs. r = None"
    and "logs (loggers w this) item = Some xs" and "map message xs = last_n H msgs"
  shows "\<exists>ys. logs (loggers w' this) item = Some ys
           \<and> map message ys = last_n H (msgs @ map (render rt) argss)"
  using assms(1,5,6,7,8)
proof (induction argss arbitrary: w rs xs msgs)
  case Nil
  then show ?case by simp
next
  case (Cons args argss)
  from Cons.prems(2) have "run rt ((item, args) # map (Pair item) argss) w = (rs, w')"
    by (simp del: run.simps)
  from run_Cons [OF this] obtain r w1 rs' where
    i: "invoke rt item args w = (r, w1)" and rest: "run rt (map (Pair item) argss) w1 = (rs', w')"
    and rs: "rs = r # rs'"
    by blast
  from rs Cons.prems(3) have ok: "r = None" "\<forall>r\<in>set rs'. r = None" by simp_all
  from i Cons.prems(1) ok have c: "call rt (Wrapper this item orig log) args w = (None, w1)"
    by (simp add: invoke_def)
  from invoke_console [OF i] Cons.prems(1)
  have slot: "code (console w1 item) = Wrapper this item orig log" by simp
  from wrapper_call_history_ok [OF assms(2,3) Cons.prems(4) c]
  obtain d where zs: "logs (loggers w1 this) item
      = Some (last_n H (xs @ [\<lparr>time = d, message = render rt args\<rparr>]))" by blast
  have "map message (last_n H (xs @ [\<lparr>time = d, message = render rt args\<rparr>]))
          = last_n H (msgs @ [render rt args])"
    using Cons.prems(5) assms(4) by (simp add: map_last_n last_n_snoc)
  from Cons.IH [OF slot rest ok(2) zs this] show ?case by simp
qed


section \<open>Instances without the memory sink\<close>

lemma memoryless_fresh: "this \<notin> ids f \<Longrightarrow> memoryless this f"
  by (induction f) auto

lemma sinks_memory_off:
  assumes "\<not> truthy (get log ''memory'')" and "sinks rt this item log str w = (r, w')"
  shows "loggers w' = loggers w"
  using assms(2)
proof (cases rule: sinks_cases)
  case (at_file e)
  then show ?thesis using file_sink_frame by blast
next
  case (at_memory w1 e)
  with memory_sink_off [OF assms(1), of rt this item str w1] show ?thesis by simp
next
  case (at_emit w1 w2)
  from memory_sink_off [OF assms(1), of rt this item str w1] at_emit(2) have "w2 = w1" by simp
  with file_sink_frame [OF at_emit(1)] emit_sink_frame [OF at_emit(3)] show ?thesis by simp
qed

lemma call_memoryless:
  "memoryless this f \<Longrightarrow> call rt f args w = (r, w') \<Longrightarrow> loggers w' this = loggers w this"
proof (induction f arbitrary: r w')
  case (Native name)
  then show ?case by (auto simp: Let_def split: if_splits)
next
  case (Wrapper t item orig log)
  obtain r1 w1 where c: "call rt orig args w = (r1, w1)" by (cases "call rt orig args w")
  from Wrapper.prems(1) have "memoryless this orig" by simp
  note ih = Wrapper.IH [OF this c]
  show ?case
  proof (cases r1)
    case (Some e)
    with c Wrapper.prems(2) have "w' = w1" by simp
    with ih show ?thesis by simp
  next
    case None
    with c Wrapper.prems(2) have s: "sinks rt t item log (render rt args) w1 = (r, w')" by simp
    show ?thesis
    proof (cases "t = this")
      case True
      with Wrapper.prems(1) have "\<not> truthy (get log ''memory'')" by simp
      from sinks_memory_off [OF this s] ih show ?thesis by simp
    next
      case False
      with sinks_frame [OF s] ih show ?thesis by simp
    qed
  qed
qed

lemma run_memoryless:
  "\<forall>name. memoryless this (code (console w name)) \<Longrightarrow> run rt calls w = (rs, w') \<Longrightarrow>
     loggers w' this = loggers w this"
proof (induction calls arbitrary: w rs)
  case Nil
  then show ?case by simp
next
  case (Cons c calls)
  obtain name args where c: "c = (name, args)" by (cases c)
  with Cons.prems(2) have "run rt ((name, args) # calls) w = (rs, w')" by simp
  from run_Cons [OF this] obtain r w1 rs' where
    i: "invoke rt name args w = (r, w1)" and rest: "run rt calls w1 = (rs', w')" by blast
  from i Cons.prems(1) have "loggers w1 this = loggers w this"
    by (auto simp: invoke_def dest: call_memoryless)
  moreover from invoke_console [OF i] Cons.prems(1)
  have "\<forall>name. memoryless this (code (console w1 name))" by simp
  from Cons.IH [OF this rest] have "loggers w' this = loggers w1 this" .
  ultimately show ?case by simp
qed


section \<open>Evaluating the examples\<close>

lemmas eval_defs = Logger_def alloc_def validate_def isNaN_def fresh_def Let_def
       invoke_def sinks_def file_sink_def memory_sink_def emit_sink_def emit_def new_Date_def
       appendFileSync_def example_runtime_def int_to_string_def decimal.simps

lemma pair_fst_snd: "fst p = a \<Longrightarrow> p = (a, snd p)"
  by (cases p) simp

lemma wf_world_fresh: "wf_world fresh"
  by (simp add: wf_world_def fresh_def)

lemma single_interception_fresh: "single_interception fresh"
  by (simp add: single_interception_def fresh_def)


section \<open>The claims\<close>

text \<open>
  C1. A logger is constructed with the memory sink and the bound \<open>history = H\<close>, a positive
  integer, for a selected type \<open>item\<close>, in a well-formed process state. After any sequence of
  calls of the intercepted function of that type the history of the type holds at most \<open>H\<close>
  entries; and when each of the \<open>N\<close> calls has returned to its caller (none was cut short by
  an exception of the original function or of a sink), the history has length \<open>min N H\<close> and
  its messages are the last \<open>min N H\<close> rendered messages, in call order.
\<close>

theorem memory_history_keeps_last_entries:
  assumes "wf_world w"
    and "Logger rt arg w = (Inr this, w0)"
    and "get arg ''types'' = JArr items" and "JStr item \<in> set items"
    and "get (get (get arg ''log'') ''memory'') ''history'' = JNum (Fin (int H))" and "0 < H"
    and "run rt (map (Pair item) argss) w0 = (rs, w')"
  shows "\<exists>ys. logs (loggers w' this) item = Some ys
           \<and> length ys \<le> H
           \<and> ((\<forall>r\<in>set rs. r = None) \<longrightarrow>
                 length ys = min (length argss) H
                 \<and> map message ys = last_n (min (length argss) H) (map (render rt) argss))"
proof -
  from assms(2) obtain items' where it: "get arg ''types'' = JArr items'"
    and eq: "this = next_logger w"
    and inst: "install (next_logger w) (get arg ''log'') items' (alloc w) = (None, w0)"
    by (rule Logger_success)
  from it assms(3) have "items' = items" by simp
  with inst assms(4) eq
  have w0: "console w0 item = \<lparr>code = Wrapper this item (code (console w item)) (get arg ''log''),
                               modified = True\<rparr>"
       "logs (loggers w0 this) item = Some []"
    using install_wrapped [of "next_logger w" "get arg ''log''" items "alloc w" w0 item] by simp_all
  then have slot: "code (console w0 item) = Wrapper this item (code (console w item)) (get arg ''log'')"
    by simp
  from assms(1) eq have fresh: "this \<notin> ids (code (console w item))"
    by (auto simp: wf_world_def)
  from run_history_bounded [OF slot fresh assms(5) assms(7) w0(2)]
  obtain ys where ys: "logs (loggers w' this) item = Some ys" "length ys \<le> H" by auto
  have "length ys = min (length argss) H
        \<and> map message ys = last_n (min (length argss) H) (map (render rt) argss)"
    if ok: "\<forall>r\<in>set rs. r = None"
  proof -
    have "map message [] = last_n H ([] :: string list)" by (simp add: last_n_def)
    from run_history_content [OF slot fresh assms(5) assms(6) assms(7) ok w0(2) this] ys
    have m: "map message ys = last_n H (map (render rt) argss)" by simp
    have "length ys = length (map message ys)" by simp
    also have "\<dots> = min (length argss) H" unfolding m by (simp add: length_last_n)
    finally have "length ys = min (length argss) H" .
    moreover have "last_n H (map (render rt) argss)
        = last_n (min (length argss) H) (map (render rt) argss)"
      by (auto simp: last_n_def min_def)
    ultimately show ?thesis using m by simp
  qed
  with ys show ?thesis by blast
qed

theorem memory_history_keeps_last_entries_witness:
  "wf_world fresh
   \<and> fst (Logger example_runtime memory_config fresh) = Inr 0
   \<and> fst (run example_runtime (map (Pair ''log'') [[JStr ''a''], [JStr ''b''], [JStr ''c'']])
            (snd (Logger example_runtime memory_config fresh))) = [None, None, None]
   \<and> (\<exists>ys. logs (loggers (snd (run example_runtime
                 (map (Pair ''log'') [[JStr ''a''], [JStr ''b''], [JStr ''c'']])
                 (snd (Logger example_runtime memory_config fresh)))) 0) ''log'' = Some ys
          \<and> length ys = 2 \<and> map message ys = [''b'', ''c''])"
proof -
  let ?w0 = "snd (Logger example_runtime memory_config fresh)"
  let ?argss = "[[JStr ''a''], [JStr ''b''], [JStr ''c'']]"
  let ?res = "run example_runtime (map (Pair ''log'') ?argss) ?w0"
  have wf: "wf_world fresh" by (rule wf_world_fresh)
  have c: "fst (Logger example_runtime memory_config fresh) = Inr 0"
    by (simp add: memory_config_def eval_defs)
  have t: "get memory_config ''types'' = JArr [JStr ''log'']" by (simp add: memory_config_def)
  have m: "JStr ''log'' \<in> set [JStr ''log'']" by simp
  have h: "get (get (get memory_config ''log'') ''memory'') ''history'' = JNum (Fin (int 2))"
    by (simp add: memory_config_def)
  have rs: "fst ?res = [None, None, None]"
    by (simp add: memory_config_def eval_defs)
  have msgs: "last_n (min (length ?argss) 2) (map (render example_runtime) ?argss) = [''b'', ''c'']"
    by (simp add: last_n_def render_def trim_def trim_end_def is_ws_def)
  from memory_history_keeps_last_entries
    [OF wf pair_fst_snd [OF c] t m h _ pair_fst_snd [OF rs]]
  obtain ys where "logs (loggers (snd ?res) 0) ''log'' = Some ys"
    "length ys = min (length ?argss) 2"
    "map message ys = last_n (min (length ?argss) 2) (map (render example_runtime) ?argss)"
    by auto
  with msgs have "\<exists>ys. logs (loggers (snd ?res) 0) ''log'' = Some ys
          \<and> length ys = 2 \<and> map message ys = [''b'', ''c'']" by simp
  with wf c rs show ?thesis by blast
qed

text \<open>
  C2. When the output function of a type carries the marker and the \<^verbatim>\<open>types\<close> of a
  configuration include that type, construction fails; the error is the double-attachment
  error whenever the configuration passes validation; the slot of that type still holds the
  same function object with the same marker, the instances that existed before are untouched,
  and if every slot held at most one interception (one exactly when marked) this is still so
  afterwards.
\<close>

theorem second_attachment_rejected:
  assumes "get arg ''types'' = JArr items" and "JStr name \<in> set items"
    and "modified (console w name)"
  shows "\<exists>e w'. Logger rt arg w = (Inl e, w')
           \<and> (validate rt (get arg ''types'') (get arg ''log'') = None \<longrightarrow>
                (\<exists>k. e = AttachedMultipleTimes k))
           \<and> console w' name = console w name
           \<and> (\<forall>i. i \<noteq> next_logger w \<longrightarrow> loggers w' i = loggers w i)
           \<and> (single_interception w \<longrightarrow> single_interception w')"
proof -
  have inv: "single_interception w \<longrightarrow> single_interception (snd (Logger rt arg w))"
    by (simp add: Logger_single_interception)
  show ?thesis
  proof (cases "validate rt (get arg ''types'') (get arg ''log'')")
    case (Some e)
    from assms(1) have "arg \<noteq> JNull" by auto
    from Logger_invalid [OF this Some, of w] Some inv show ?thesis by simp
  next
    case None
    then obtain items' where "get arg ''types'' = JArr items'" "check_types items' = None"
      by (rule validate_None)
    with assms(1) have ct: "check_types items = None" by simp
    obtain r w' where inst: "install (next_logger w) (get arg ''log'') items (alloc w) = (r, w')"
      by (cases "install (next_logger w) (get arg ''log'') items (alloc w)")
    from assms(3) have "modified (console (alloc w) name)" by simp
    from install_marked [OF inst ct assms(2) this]
    obtain k where r: "r = Some (AttachedMultipleTimes k)" and c: "console w' name = console w name"
      by auto
    from Logger_valid [OF None assms(1), of w] inst r
    have l: "Logger rt arg w = (Inl (AttachedMultipleTimes k), w')" by simp
    moreover from install_frame [OF inst]
    have "\<forall>i. i \<noteq> next_logger w \<longrightarrow> loggers w' i = loggers w i" by simp
    moreover from inv l have "single_interception w \<longrightarrow> single_interception w'" by simp
    ultimately show ?thesis using c by blast
  qed
qed

theorem second_attachment_rejected_witness:
  "modified (console (snd (Logger example_runtime memory_config fresh)) ''log'')
   \<and> single_interception (snd (Logger example_runtime memory_config fresh))
   \<and> validate example_runtime (get second_config ''types'') (get second_config ''log'') = None
   \<and> fst (Logger example_runtime second_config (snd (Logger example_runtime memory_config fresh)))
       = Inl (AttachedMultipleTimes ''log'')
   \<and> console (snd (Logger example_runtime second_config
                      (snd (Logger example_runtime memory_config fresh)))) ''log''
       = console (snd (Logger example_runtime memory_config fresh)) ''log''
   \<and> loggers (snd (Logger example_runtime second_config
                      (snd (Logger example_runtime memory_config fresh)))) 0
       = loggers (snd (Logger example_runtime memory_config fresh)) 0
   \<and> single_interception (snd (Logger example_runtime second_config
                      (snd (Logger example_runtime memory_config fresh))))"
proof -
  let ?w1 = "snd (Logger example_runtime memory_config fresh)"
  let ?w2 = "snd (Logger example_runtime second_config ?w1)"
  have t: "get second_config ''types'' = JArr [JStr ''warn'', JStr ''log'']"
    by (simp add: second_config_def)
  have m: "JStr ''log'' \<in> set [JStr ''warn'', JStr ''log'']" by simp
  have marked: "modified (console ?w1 ''log'')"
    by (simp add: memory_config_def eval_defs)
  have n: "next_logger ?w1 = 1"
    by (simp add: memory_config_def eval_defs)
  have s: "single_interception ?w1"
    by (rule Logger_single_interception [OF single_interception_fresh])
  have v: "validate example_runtime (get second_config ''types'') (get second_config ''log'') = None"
    by (simp add: second_config_def validate_def)
  have e: "fst (Logger example_runtime second_config ?w1) = Inl (AttachedMultipleTimes ''log'')"
    by (simp add: second_config_def memory_config_def eval_defs)
  from second_attachment_rejected [OF t m marked, of example_runtime] n s
  have "console ?w2 ''log'' = console ?w1 ''log''" "loggers ?w2 0 = loggers ?w1 0"
    "single_interception ?w2"
    by auto
  with marked s v e show ?thesis by (intro conjI)
qed

text \<open>
  C3, as the code has it. Duplicates in \<^verbatim>\<open>types\<close> are not rejected by validation: a
  configuration passes validation whenever the one with each kind listed once does. They are
  not without effect: the installation loop meets the marker it has set itself, so
  construction with a repeated kind fails with the double-attachment error.
\<close>

theorem duplicate_types_fail_at_installation:
  assumes "get arg ''types'' = JArr items" and "\<not> distinct items"
    and "validate rt (JArr (remdups items)) (get arg ''log'') = None"
  shows "validate rt (get arg ''types'') (get arg ''log'') = None
         \<and> (\<exists>k w'. Logger rt arg w = (Inl (AttachedMultipleTimes k), w'))"
proof -
  from assms(1,3) have v: "validate rt (get arg ''types'') (get arg ''log'') = None"
    by (simp add: validate_remdups [symmetric])
  then obtain items' where "get arg ''types'' = JArr items'" "check_types items' = None"
    by (rule validate_None)
  with assms(1) have ct: "check_types items = None" by simp
  from install_duplicate [OF ct assms(2), of "next_logger w" "get arg ''log''" "alloc w"]
  obtain k w' where "install (next_logger w) (get arg ''log'') items (alloc w)
      = (Some (AttachedMultipleTimes k), w')" by blast
  with Logger_valid [OF v assms(1), of w] v show ?thesis by simp
qed

theorem duplicate_types_fail_at_installation_witness:
  "\<not> distinct [JStr ''log'', JStr ''log'']
   \<and> validate example_runtime (JArr (remdups [JStr ''log'', JStr ''log''])) (get duplicate_config ''log'') = None
   \<and> validate example_runtime (get duplicate_config ''types'') (get duplicate_config ''log'') = None
   \<and> (\<exists>k w'. Logger example_runtime duplicate_config fresh = (Inl (AttachedMultipleTimes k), w'))"
proof -
  have t: "get duplicate_config ''types'' = JArr [JStr ''log'', JStr ''log'']"
    by (simp add: duplicate_config_def)
  have d: "\<not> distinct [JStr ''log'', JStr ''log'']" by simp
  have v: "validate example_runtime (JArr (remdups [JStr ''log'', JStr ''log'']))
             (get duplicate_config ''log'') = None"
    by (simp add: duplicate_config_def validate_def)
  from duplicate_types_fail_at_installation [OF t d v, of fresh] d v show ?thesis by blast
qed

text \<open>
  The claim C3 as stated fails: \<^verbatim>\<open>types: ["log", "log"]\<close> with the emit sink passes
  validation and construction throws, where \<^verbatim>\<open>types: ["log"]\<close> succeeds.
\<close>

theorem duplicate_types_counterexample:
  "validate example_runtime (get duplicate_config ''types'') (get duplicate_config ''log'') = None
   \<and> fst (Logger example_runtime duplicate_config fresh) = Inl (AttachedMultipleTimes ''log'')
   \<and> fst (Logger example_runtime emit_config fresh) = Inr 0"
  by (simp add: duplicate_config_def emit_config_def eval_defs)

text \<open>
  C4 at the inputs where the code departs from it. The guard of line 44 is
  \<^verbatim>\<open>!dir && typeof dir != "string"\<close>: a \<^verbatim>\<open>dir\<close> that is the number 42 and a \<^verbatim>\<open>dir\<close> that is
  the empty string both pass it and construction succeeds, in every runtime; with the number
  the first call of the intercepted function then fails in \<^verbatim>\<open>path.resolve\<close>.
\<close>

theorem non_string_dir_accepted:
  "fst (Logger rt (dir_config (JNum (Fin 42))) fresh) = Inr 0
   \<and> fst (Logger rt (dir_config (JStr [])) fresh) = Inr 0
   \<and> fst (invoke example_runtime ''log'' [JStr ''x'']
            (snd (Logger example_runtime (dir_config (JNum (Fin 42))) fresh))) = Some TypeError"
  by (simp add: dir_config_def eval_defs)

text \<open>
  C5, as the code has it. With the memory sink present, construction fails, before anything
  is installed, whenever \<^verbatim>\<open>isNaN(history)\<close> holds; a \<^verbatim>\<open>history\<close> for which it does not hold is
  never the reason of a failure; and \<^verbatim>\<open>isNaN\<close> holds for no integer, so zero and the negative
  integers are accepted like the positive ones.
\<close>

theorem history_rejected_only_when_NaN:
  assumes "truthy (get (get arg ''log'') ''memory'')"
  shows "(isNaN rt (get (get (get arg ''log'') ''memory'') ''history'') \<longrightarrow>
            (\<exists>e. fst (Logger rt arg w) = Inl e) \<and> console (snd (Logger rt arg w)) = console w)
         \<and> (\<not> isNaN rt (get (get (get arg ''log'') ''memory'') ''history'') \<longrightarrow>
            fst (Logger rt arg w) \<noteq> Inl InvalidMemoryHistory)
         \<and> \<not> isNaN rt (JNum (Fin n))"
proof (intro conjI impI)
  from assms have nn: "arg \<noteq> JNull" by auto
  {
    assume "isNaN rt (get (get (get arg ''log'') ''memory'') ''history'')"
    from validate_NaN_history [OF assms this, of "get arg ''types''"]
    obtain e where "validate rt (get arg ''types'') (get arg ''log'') = Some e" by auto
    from Logger_invalid [OF nn this, of w]
    show "\<exists>e. fst (Logger rt arg w) = Inl e" "console (snd (Logger rt arg w)) = console w"
      by simp_all
  }
  {
    assume ok: "\<not> isNaN rt (get (get (get arg ''log'') ''memory'') ''history'')"
    show "fst (Logger rt arg w) \<noteq> Inl InvalidMemoryHistory"
    proof
      assume "fst (Logger rt arg w) = Inl InvalidMemoryHistory"
      from validate_history [OF Logger_history_error [OF this]] ok show False by simp
    qed
  }
  show "\<not> isNaN rt (JNum (Fin n))" by (simp add: isNaN_def)
qed

theorem history_rejected_only_when_NaN_witness:
  "truthy (get (get (history_config JUndefined) ''log'') ''memory'')
   \<and> isNaN example_runtime JUndefined
   \<and> fst (Logger example_runtime (history_config JUndefined) fresh) = Inl InvalidMemoryHistory
   \<and> console (snd (Logger example_runtime (history_config JUndefined) fresh)) = console fresh
   \<and> \<not> isNaN example_runtime (JNum (Fin (- 3)))
   \<and> fst (Logger example_runtime (history_config (JNum (Fin (- 3)))) fresh) = Inr 0"
proof -
  have t: "truthy (get (get (history_config JUndefined) ''log'') ''memory'')"
    by (simp add: history_config_def)
  have h: "get (get (get (history_config JUndefined) ''log'') ''memory'') ''history'' = JUndefined"
    by (simp add: history_config_def)
  have n: "isNaN example_runtime JUndefined" by (simp add: isNaN_def)
  have e: "fst (Logger example_runtime (history_config JUndefined) fresh) = Inl InvalidMemoryHistory"
    by (simp add: history_config_def eval_defs)
  have a: "fst (Logger example_runtime (history_config (JNum (Fin (- 3)))) fresh) = Inr 0"
    by (simp add: history_config_def eval_defs)
  from history_rejected_only_when_NaN [OF t, of example_runtime fresh "- 3"] h n
  have "console (snd (Logger example_runtime (history_config JUndefined) fresh)) = console fresh"
    "\<not> isNaN example_runtime (JNum (Fin (- 3)))" by simp_all
  with t n e a show ?thesis by blast
qed

text \<open>
  The claim C5 as stated fails: \<^verbatim>\<open>history: 0\<close> is not an integer greater than 0 and
  construction accepts it.
\<close>

theorem history_zero_accepted:
  "get (get (get (history_config (JNum (Fin 0))) ''log'') ''memory'') ''history'' = JNum (Fin 0)
   \<and> fst (Logger example_runtime (history_config (JNum (Fin 0))) fresh) = Inr 0"
  by (simp add: history_config_def eval_defs)

text \<open>
  C6 at an input where the code departs from it. A \<^verbatim>\<open>file\<close> sink whose \<^verbatim>\<open>dir\<close> is the number
  42 violates rule 6 of section 4.1 (\<^verbatim>\<open>dir\<close> must be a non-empty string), yet in every runtime
  the checks of lines 37 to 58 all pass, construction returns the instance instead of
  throwing, and the \<^verbatim>\<open>log\<close> slot of the console holds the wrapper with the marker set. The
  cause is the guard of line 44, as for C4.
\<close>

theorem invalid_dir_installs_interception:
  "typeof (get (get (get (dir_config (JNum (Fin 42))) ''log'') ''file'') ''dir'') \<noteq> ''string''
   \<and> validate rt (get (dir_config (JNum (Fin 42))) ''types'')
         (get (dir_config (JNum (Fin 42))) ''log'') = None
   \<and> fst (Logger rt (dir_config (JNum (Fin 42))) fresh) = Inr 0
   \<and> console (snd (Logger rt (dir_config (JNum (Fin 42))) fresh)) ''log''
       = \<lparr>code = Wrapper 0 ''log'' (Native ''log'') (get (dir_config (JNum (Fin 42))) ''log''),
          modified = True\<rparr>
   \<and> \<not> modified (console fresh ''log'')"
  by (simp add: dir_config_def Logger_def alloc_def validate_def fresh_def Let_def)

text \<open>
  C7. A call of the wrapper, with any configuration and any arguments, first calls the
  captured original function with the same arguments in the state it was entered in; what the
  wrapper adds to the trace comes after the original's events and consists of sink events
  only; when the original throws the wrapper stops there. For an original the logger did not
  create, the first event of the call is that function applied to the same arguments.
\<close>

theorem original_called_first:
  assumes "call rt (Wrapper this item orig log) args w = (r, w')"
  shows "\<exists>r1 w1 rest. call rt orig args w = (r1, w1)
           \<and> trace w' = trace w1 @ rest \<and> (\<forall>e\<in>set rest. is_sink_event e)
           \<and> (r1 \<noteq> None \<longrightarrow> r = r1 \<and> w' = w1)
           \<and> (\<forall>name. orig = Native name \<longrightarrow> trace w1 = trace w @ [Called name args])"
proof -
  obtain r1 w1 where c: "call rt orig args w = (r1, w1)" by (cases "call rt orig args w")
  have nat: "\<forall>name. orig = Native name \<longrightarrow> trace w1 = trace w @ [Called name args]"
    using c by (auto simp: Let_def split: if_splits)
  show ?thesis
  proof (cases r1)
    case (Some e)
    with c assms have "r = r1 \<and> w' = w1" by simp
    with c nat have "call rt orig args w = (r1, w1)
           \<and> trace w' = trace w1 @ [] \<and> (\<forall>e\<in>set []. is_sink_event e)
           \<and> (r1 \<noteq> None \<longrightarrow> r = r1 \<and> w' = w1)
           \<and> (\<forall>name. orig = Native name \<longrightarrow> trace w1 = trace w @ [Called name args])" by simp
    then show ?thesis by blast
  next
    case None
    with c assms have "sinks rt this item log (render rt args) w1 = (r, w')" by simp
    from sinks_trace [OF this] c nat None show ?thesis by auto
  qed
qed

theorem original_called_first_witness:
  "call example_runtime (Wrapper 0 ''log'' (Native ''log'') (get file_config ''log'')) [JStr ''x''] fresh
     = (None, snd (call example_runtime (Wrapper 0 ''log'' (Native ''log'') (get file_config ''log''))
                     [JStr ''x''] fresh))
   \<and> trace (snd (call example_runtime (Wrapper 0 ''log'' (Native ''log'') (get file_config ''log''))
                     [JStr ''x''] fresh))
       = [Called ''log'' [JStr ''x''], Appended ''/tmp/log_1970_1_1.log'' [CHR ''x'', CHR 0x0A]]
   \<and> (\<exists>rest. trace (snd (call example_runtime (Wrapper 0 ''log'' (Native ''log'') (get file_config ''log''))
                     [JStr ''x''] fresh))
         = trace fresh @ [Called ''log'' [JStr ''x'']] @ rest \<and> list_all is_sink_event rest)"
proof -
  let ?f = "Wrapper 0 ''log'' (Native ''log'') (get file_config ''log'')"
  let ?res = "call example_runtime ?f [JStr ''x''] fresh"
  have r: "fst ?res = None"
    by (simp add: file_config_def eval_defs render_single_letter is_ws_def)
  have t: "trace (snd ?res)
       = [Called ''log'' [JStr ''x''], Appended ''/tmp/log_1970_1_1.log'' [CHR ''x'', CHR 0x0A]]"
    by (simp add: file_config_def eval_defs render_single_letter is_ws_def)
  from original_called_first [OF pair_fst_snd [OF r]]
  obtain w1 :: world and rest where a: "trace (snd ?res) = trace w1 @ rest"
    and b: "\<forall>e\<in>set rest. is_sink_event e"
    and c: "\<forall>name. Native ''log'' = Native name \<longrightarrow> trace w1 = trace fresh @ [Called name [JStr ''x'']]"
    apply (elim exE conjE)
    apply (rule that)
    apply assumption+
    done
  from c have "trace w1 = trace fresh @ [Called ''log'' [JStr ''x'']]" by simp
  with a b have "trace (snd ?res) = trace fresh @ [Called ''log'' [JStr ''x'']] @ rest
             \<and> list_all is_sink_event rest"
    by (simp add: list_all_iff)
  then have e: "\<exists>rest. trace (snd ?res) = trace fresh @ [Called ''log'' [JStr ''x'']] @ rest
             \<and> list_all is_sink_event rest" by (rule exI)
  from pair_fst_snd [OF r] t e show ?thesis by (intro conjI)
qed

text \<open>
  C8. The rendered message is the per-argument renderings joined by single spaces and then
  trimmed at both ends; an argument whose \<^verbatim>\<open>typeof\<close> is \<^verbatim>\<open>"object"\<close> or \<^verbatim>\<open>"function"\<close> is
  rendered by \<^verbatim>\<open>util.inspect\<close>, a string by itself and a number by its textual form; the
  single argument \<^verbatim>\<open>"hello"\<close> renders as \<^verbatim>\<open>"hello"\<close>.
\<close>

theorem render_trimmed_join:
  "render rt args = trim (join_spaces (map (render_arg rt) args))
   \<and> (typeof v = ''object'' \<or> typeof v = ''function'' \<longrightarrow> render_arg rt v = inspect rt v)
   \<and> render_arg rt (JStr s) = s
   \<and> render_arg rt (JNum n) = number_to_string rt n
   \<and> render rt [JStr ''hello''] = ''hello''"
proof (intro conjI)
  show "render rt args = trim (join_spaces (map (render_arg rt) args))"
  proof (cases "args = []")
    case True
    then show ?thesis by (simp add: render_def)
  next
    case False
    then show ?thesis by (simp add: render_def render_loop_join trim_snoc_space)
  qed
  show "typeof v = ''object'' \<or> typeof v = ''function'' \<longrightarrow> render_arg rt v = inspect rt v"
    by (simp add: render_arg_inspect)
  show "render_arg rt (JStr s) = s" by simp
  show "render_arg rt (JNum n) = number_to_string rt n" by simp
  show "render rt [JStr ''hello''] = ''hello''"
    by (simp add: render_def trim_def trim_end_def is_ws_def)
qed

theorem render_trimmed_join_witness:
  "render example_runtime [JStr ''  a'', JNum (Fin 7), JNull]
     = trim (join_spaces [''  a'', ''7'', ''[inspected]''])
   \<and> typeof JNull = ''object''
   \<and> render_arg example_runtime JNull = inspect example_runtime JNull
   \<and> render example_runtime [JStr ''  a'', JNum (Fin 7), JNull] = ''a 7 [inspected]''"
proof -
  have t: "typeof JNull = ''object''" by simp
  have n: "number_to_string example_runtime (Fin 7) = ''7''"
    by (simp add: example_runtime_def int_to_string_def decimal.simps)
  have i: "inspect example_runtime JNull = ''[inspected]''"
    by (simp add: example_runtime_def)
  have j: "trim (join_spaces [''  a'', ''7'', ''[inspected]'']) = ''a 7 [inspected]''"
    by (simp add: trim_def trim_end_def is_ws_def)
  from render_trimmed_join [of example_runtime "[JStr ''  a'', JNum (Fin 7), JNull]" JNull]
  show ?thesis using t n i j by simp
qed

text \<open>
  C9, as the code has it. After a successful construction, with or without the memory sink,
  the \<^verbatim>\<open>logs\<close> object of the instance has a history sequence for each selected type and for
  nothing else, and each of these sequences is empty (line 66 creates them unconditionally).
\<close>

theorem logs_has_every_selected_type:
  assumes "Logger rt arg w = (Inr this, w')"
  shows "\<exists>items. get arg ''types'' = JArr items
           \<and> (\<forall>name. logs (loggers w' this) name = (if JStr name \<in> set items then Some [] else None))"
proof -
  from assms obtain items where it: "get arg ''types'' = JArr items"
    and eq: "this = next_logger w"
    and inst: "install (next_logger w) (get arg ''log'') items (alloc w) = (None, w')"
    by (rule Logger_success)
  have "logs (loggers w' this) name = (if JStr name \<in> set items then Some [] else None)" for name
    using install_logs [OF inst, of name] eq by simp
  with it show ?thesis by blast
qed

theorem logs_has_every_selected_type_witness:
  "fst (Logger example_runtime emit_config fresh) = Inr 0
   \<and> get emit_config ''types'' = JArr [JStr ''log'']
   \<and> logs (loggers (snd (Logger example_runtime emit_config fresh)) 0) ''log'' = Some []
   \<and> logs (loggers (snd (Logger example_runtime emit_config fresh)) 0) ''warn'' = None"
proof -
  have c: "fst (Logger example_runtime emit_config fresh) = Inr 0"
    by (simp add: emit_config_def eval_defs)
  have t: "get emit_config ''types'' = JArr [JStr ''log'']" by (simp add: emit_config_def)
  from logs_has_every_selected_type [OF pair_fst_snd [OF c]] t
  have "\<forall>name. logs (loggers (snd (Logger example_runtime emit_config fresh)) 0) name
          = (if JStr name \<in> set [JStr ''log''] then Some [] else None)" by simp
  then have "logs (loggers (snd (Logger example_runtime emit_config fresh)) 0) ''log'' = Some []"
    "logs (loggers (snd (Logger example_runtime emit_config fresh)) 0) ''warn'' = None"
    by simp_all
  with c t show ?thesis by blast
qed

text \<open>
  The claim C9 as stated fails: a logger with the emit sink only has a history sequence for
  \<^verbatim>\<open>log\<close>.
\<close>

theorem logs_without_memory_counterexample:
  "get (get emit_config ''log'') ''memory'' = JUndefined
   \<and> fst (Logger example_runtime emit_config fresh) = Inr 0
   \<and> logs (loggers (snd (Logger example_runtime emit_config fresh)) 0) ''log'' = Some []"
  by (simp add: emit_config_def eval_defs)

text \<open>
  C10. A logger constructed without the memory sink, in a well-formed process state: after
  any run of calls of output functions, whatever their outcome and whatever the other sinks,
  the \<^verbatim>\<open>logs\<close> object of the instance is what it was after construction, and every sequence
  in it is empty.
\<close>

theorem logs_unchanged_without_memory_sink:
  assumes "wf_world w"
    and "Logger rt arg w = (Inr this, w0)"
    and "\<not> truthy (get (get arg ''log'') ''memory'')"
    and "run rt calls w0 = (rs, w')"
  shows "logs (loggers w' this) = logs (loggers w0 this)
         \<and> (\<forall>name xs. logs (loggers w' this) name = Some xs \<longrightarrow> xs = [])"
proof -
  from assms(2) obtain items where eq: "this = next_logger w"
    and inst: "install (next_logger w) (get arg ''log'') items (alloc w) = (None, w0)"
    by (rule Logger_success)
  have "memoryless this (code (console w0 name))" for name
  proof -
    from assms(1) eq have "this \<notin> ids (code (console w name))" by (auto simp: wf_world_def)
    then have "memoryless this (code (console w name))" by (rule memoryless_fresh)
    with install_slot [OF inst, of name] assms(3) eq show ?thesis by auto
  qed
  then have "\<forall>name. memoryless this (code (console w0 name))" by simp
  from run_memoryless [OF this assms(4)] have same: "loggers w' this = loggers w0 this" .
  have "xs = []" if "logs (loggers w' this) name = Some xs" for name xs
    using that same install_logs [OF inst, of name] eq by (simp split: if_splits)
  with same show ?thesis by simp
qed

theorem logs_unchanged_without_memory_sink_witness:
  "wf_world fresh
   \<and> fst (Logger example_runtime file_config fresh) = Inr 0
   \<and> \<not> truthy (get (get file_config ''log'') ''memory'')
   \<and> logs (loggers (snd (run example_runtime [(''log'', [JStr ''a'']), (''warn'', [JStr ''b'']), (''log'', [])]
              (snd (Logger example_runtime file_config fresh)))) 0)
       = logs (loggers (snd (Logger example_runtime file_config fresh)) 0)
   \<and> logs (loggers (snd (run example_runtime [(''log'', [JStr ''a'']), (''warn'', [JStr ''b'']), (''log'', [])]
              (snd (Logger example_runtime file_config fresh)))) 0) ''log'' = Some []"
proof -
  let ?w0 = "snd (Logger example_runtime file_config fresh)"
  let ?res = "run example_runtime [(''log'', [JStr ''a'']), (''warn'', [JStr ''b'']), (''log'', [])] ?w0"
  have wf: "wf_world fresh" by (rule wf_world_fresh)
  have c: "fst (Logger example_runtime file_config fresh) = Inr 0"
    by (simp add: file_config_def eval_defs)
  have m: "\<not> truthy (get (get file_config ''log'') ''memory'')"
    by (simp add: file_config_def)
  have l: "logs (loggers ?w0 0) ''log'' = Some []"
    by (simp add: file_config_def eval_defs)
  have "?res = (fst ?res, snd ?res)" by simp
  from logs_unchanged_without_memory_sink [OF wf pair_fst_snd [OF c] m this]
  have same: "logs (loggers (snd ?res) 0) = logs (loggers ?w0 0)" by simp
  with l have "logs (loggers (snd ?res) 0) ''log'' = Some []" by simp
  with wf c m same show ?thesis by blast
qed

end
